theory Spec2Isabelle
  imports Complex_Main
begin

section \<open>Python values, errors and list access\<close>

text \<open>
  The module \<^verbatim>\<open>alexa_neopixel_controller.py\<close> is written for MicroPython and for a
  desktop interpreter. Its meaning depends on the interpreter in one place only: the
  operator \<^verbatim>\<open>/\<close> on two integers is true division (a float) in Python 3 and in
  MicroPython, and floor division (an integer) in Python 2. The model takes the
  interpreter as a parameter of every function that divides. MicroPython, which the
  module names as its target and on which its last two lines run it, is a Python 3:
  where the two readings differ, the statements about the module are made for
  \<open>Python3\<close>, and what holds under \<open>Python2\<close> is stated beside them.

  A Python number is an integer or a float. A float is idealised as the rational it
  stands for. The model reads a float in three ways only: its type (a float is no
  argument for \<^verbatim>\<open>range\<close>), the comparison of an integer with \<^verbatim>\<open>NUM_LIGHTS/2\<close>
  (exact in floating point) and \<^verbatim>\<open>math.trunc\<close> of a quotient of two integers
  (the correctly rounded quotient of a difference of two 8-bit channels by a positive
  integer truncates to the same integer as the exact quotient).
\<close>

datatype error = TypeError | IndexError | ValueError | ZeroDivisionError

datatype dialect = Python2 | Python3

datatype pynum = PyInt int | PyFloat rat

definition ebind :: "error + 'a \<Rightarrow> ('a \<Rightarrow> error + 'b) \<Rightarrow> error + 'b" where
  "ebind m f = (case m of Inl e \<Rightarrow> Inl e | Inr x \<Rightarrow> f x)"

text \<open>A \<^verbatim>\<open>for\<close> loop over a list of indices; an exception in the body leaves the loop.\<close>

fun for_each :: "('s \<Rightarrow> 'i \<Rightarrow> error + 's) \<Rightarrow> 'i list \<Rightarrow> 's \<Rightarrow> error + 's" where
  "for_each body [] s = Inr s"
| "for_each body (i # rest) s = ebind (body s i) (for_each body rest)"

text \<open>\<^verbatim>\<open>a / b\<close> on two integers.\<close>

definition py_div :: "dialect \<Rightarrow> int \<Rightarrow> int \<Rightarrow> error + pynum" where
  "py_div d a b =
     (if b = 0 then Inl ZeroDivisionError
      else case d of
        Python2 \<Rightarrow> Inr (PyInt (a div b))
      | Python3 \<Rightarrow> Inr (PyFloat (of_int a / of_int b)))"

text \<open>\<^verbatim>\<open>range(n)\<close>: the integers from 0 below n; a float argument raises TypeError
  (in Python 3, in MicroPython and in Python 2.7 alike).\<close>

definition range_int :: "int \<Rightarrow> int list" where
  "range_int n = map int [0..<nat n]"

fun py_range :: "pynum \<Rightarrow> error + int list" where
  "py_range (PyInt n) = Inr (range_int n)"
| "py_range (PyFloat q) = Inl TypeError"

text \<open>\<^verbatim>\<open>math.trunc\<close>: an integer is returned as it is, a float loses its fraction
  toward zero.\<close>

fun math_trunc :: "pynum \<Rightarrow> int" where
  "math_trunc (PyInt n) = n"
| "math_trunc (PyFloat q) = (if 0 \<le> q then \<lfloor>q\<rfloor> else \<lceil>q\<rceil>)"

text \<open>\<^verbatim>\<open>c > x\<close> for an integer c and a number x.\<close>

fun int_gt :: "int \<Rightarrow> pynum \<Rightarrow> bool" where
  "int_gt c (PyInt n) = (n < c)"
| "int_gt c (PyFloat q) = (q < of_int c)"

text \<open>List subscripts: a negative index counts from the end, an index out of range raises
  IndexError.\<close>

definition py_index :: "'a list \<Rightarrow> int \<Rightarrow> error + nat" where
  "py_index xs i =
     (let j = (if i < 0 then i + int (length xs) else i)
      in if 0 \<le> j \<and> j < int (length xs) then Inr (nat j) else Inl IndexError)"

definition py_get :: "'a list \<Rightarrow> int \<Rightarrow> error + 'a" where
  "py_get xs i = ebind (py_index xs i) (\<lambda>j. Inr (xs ! j))"

definition py_set :: "'a list \<Rightarrow> int \<Rightarrow> 'a \<Rightarrow> error + 'a list" where
  "py_set xs i v = ebind (py_index xs i) (\<lambda>j. Inr (xs[j := v]))"

text \<open>\<^verbatim>\<open>xs.index(v)\<close>: the position of the first element equal to v; ValueError when
  there is none.\<close>

fun first_index :: "'a list \<Rightarrow> 'a \<Rightarrow> nat option" where
  "first_index [] v = None"
| "first_index (x # xs) v = (if x = v then Some 0 else map_option Suc (first_index xs v))"

definition list_index :: "'a list \<Rightarrow> 'a \<Rightarrow> error + int" where
  "list_index xs v = (case first_index xs v of None \<Rightarrow> Inl ValueError | Some i \<Rightarrow> Inr (int i))"

section \<open>Globals of the module\<close>

type_synonym color = "int \<times> int \<times> int"

definition BLUE :: color where "BLUE = (0, 5, 40)"
definition CYAN :: color where "CYAN = (0, 40, 40)"
definition BLACK :: color where "BLACK = (0, 0, 0)"

text \<open>The integer globals that the source invites to change (\<^verbatim>\<open>unit_test\<close> changes
  two of them). \<^verbatim>\<open>ALEXA_HALF_POINTER_WIDTH\<close> is a global of its own: the source does
  not compute it from \<^verbatim>\<open>ALEXA_POINTER_WIDTH\<close>, which no method reads.\<close>

record config =
  NUM_LIGHTS :: nat
  ALEXA_POINTER_WIDTH :: nat
  ALEXA_HALF_POINTER_WIDTH :: nat
  ALEXA_LOOK_OFFSET_BASE :: nat

definition default_config :: config where
  "default_config =
     \<lparr>NUM_LIGHTS = 20, ALEXA_POINTER_WIDTH = 4, ALEXA_HALF_POINTER_WIDTH = 2,
      ALEXA_LOOK_OFFSET_BASE = 2\<rparr>"

text \<open>\<^verbatim>\<open>FPS = 24.0\<close> and \<^verbatim>\<open>SLEEP_TIME = 1/FPS\<close> are floats.\<close>

definition FPS :: rat where "FPS = 24"
definition SLEEP_TIME :: rat where "SLEEP_TIME = 1 / FPS"

section \<open>The controller\<close>

text \<open>
  The state of an \<^verbatim>\<open>AlexaNeoPixelController\<close> built without a pin (\<^verbatim>\<open>np_pin=None\<close>):
  the list \<^verbatim>\<open>self.np\<close>, and what the controller has sent out so far: each frame it has
  shown (\<^verbatim>\<open>pprint(self.np)\<close> where a strip would get \<^verbatim>\<open>self.np.write()\<close>) and each
  \<^verbatim>\<open>time.sleep\<close> with its duration in seconds. The \<^verbatim>\<open>print\<close> calls of fixed strings
  and of an index are left out: they change nothing and cannot fail.
\<close>

datatype event = Show "color list" | Sleep rat

record controller =
  np :: "color list"
  trace :: "event list"

text \<open>\<^verbatim>\<open>pprint\<close> reads \<^verbatim>\<open>np[0]\<close> and \<^verbatim>\<open>np[-1]\<close>: IndexError on an empty list.\<close>

definition pprint :: "'a list \<Rightarrow> error + unit" where
  "pprint xs = ebind (py_get xs 0) (\<lambda>_. ebind (py_get xs (-1)) (\<lambda>_. Inr ()))"

definition render :: "controller \<Rightarrow> error + controller" where
  "render s = ebind (pprint (np s)) (\<lambda>_. Inr (s\<lparr>trace := trace s @ [Show (np s)]\<rparr>))"

definition sleep :: "rat \<Rightarrow> controller \<Rightarrow> controller" where
  "sleep t s = s\<lparr>trace := trace s @ [Sleep t]\<rparr>"

text \<open>The frames shown in a trace, in order.\<close>

fun shown :: "event list \<Rightarrow> color list list" where
  "shown [] = []"
| "shown (Show f # es) = f # shown es"
| "shown (Sleep t # es) = shown es"

text \<open>\<^verbatim>\<open>set_neopixel_to_list\<close> copies \<^verbatim>\<open>input_list\<close> into the strip, index by index.\<close>

definition set_neopixel_to_list :: "'a list \<Rightarrow> 'a list \<Rightarrow> error + 'a list" where
  "set_neopixel_to_list xs input_list =
     for_each (\<lambda>xs i. ebind (py_get input_list i) (py_set xs i))
       (range_int (int (length input_list))) xs"

subsection \<open>fade_to_color\<close>

text \<open>
  \<^verbatim>\<open>range(frames)\<close> raises TypeError for a float. For an integer, the frames run in
  order; the last one copies the target colour into the strip, every other one writes
  to each pixel its cached starting colour plus \<^verbatim>\<open>math.trunc(difference/frames)*(frame+1)\<close>
  per channel. Each frame is shown and followed by one sleep.
\<close>

definition fade_pixel :: "dialect \<Rightarrow> color \<Rightarrow> int \<Rightarrow> int \<Rightarrow> color \<Rightarrow> error + color" where
  "fade_pixel d color frames frame starting_color =
     (case color of (cr, cg, cb) \<Rightarrow> case starting_color of (r, g, b) \<Rightarrow>
        ebind (py_div d (cr - r) frames) (\<lambda>qr.
        ebind (py_div d (cg - g) frames) (\<lambda>qg.
        ebind (py_div d (cb - b) frames) (\<lambda>qb.
          let red_offset = math_trunc qr * (frame + 1);
              green_offset = math_trunc qg * (frame + 1);
              blue_offset = math_trunc qb * (frame + 1)
          in Inr (r + red_offset, g + green_offset, b + blue_offset)))))"

definition fade_frame ::
  "dialect \<Rightarrow> config \<Rightarrow> color \<Rightarrow> int \<Rightarrow> color list \<Rightarrow> controller \<Rightarrow> int \<Rightarrow> error + controller" where
  "fade_frame d cfg color frames np_cache s frame =
     ebind
       (if frame = frames - 1
        then set_neopixel_to_list (np s) (replicate (NUM_LIGHTS cfg) color)
        else for_each
               (\<lambda>xs pixel.
                  ebind (py_get np_cache pixel) (\<lambda>starting_color.
                  ebind (fade_pixel d color frames frame starting_color) (py_set xs pixel)))
               (range_int (int (length np_cache))) (np s))
       (\<lambda>xs. ebind (render (s\<lparr>np := xs\<rparr>)) (\<lambda>s'. Inr (sleep SLEEP_TIME s')))"

fun fade_to_color :: "dialect \<Rightarrow> config \<Rightarrow> color \<Rightarrow> pynum \<Rightarrow> controller \<Rightarrow> error + controller" where
  "fade_to_color d cfg color (PyFloat q) s = Inl TypeError"
| "fade_to_color d cfg color (PyInt frames) s =
     for_each (fade_frame d cfg color frames (np s)) (range_int frames) s"

subsection \<open>Construction\<close>

text \<open>
  \<^verbatim>\<open>__init__\<close> without pins. Line 82 fills the list with empty tuples, which line 90
  overwrites one by one; the placeholders are written here as \<open>BLACK\<close>, a value that
  nothing reads but the first \<^verbatim>\<open>pprint\<close>. The method checks nothing about the globals.
\<close>

definition init :: "config \<Rightarrow> error + controller" where
  "init cfg =
     (let placeholder = replicate (NUM_LIGHTS cfg) BLACK in
      ebind (pprint placeholder) (\<lambda>_.
      ebind (set_neopixel_to_list placeholder (replicate (NUM_LIGHTS cfg) BLACK)) (\<lambda>xs.
      ebind (render \<lparr>np = xs, trace = []\<rparr>) (\<lambda>s.
      Inr (sleep SLEEP_TIME s)))))"

subsection \<open>turn_on\<close>

text \<open>Lines 107 to 109: both ends of the strip get half a pointer.\<close>

definition seed_ends :: "config \<Rightarrow> color list \<Rightarrow> error + color list" where
  "seed_ends cfg xs =
     for_each (\<lambda>xs i. ebind (py_set xs i CYAN) (\<lambda>xs'. py_set xs' (-1 + (i * -1)) CYAN))
       (range_int (int (ALEXA_HALF_POINTER_WIDTH cfg))) xs"

text \<open>Lines 118 to 128: the body of the inner loop at one index. \<^verbatim>\<open>and\<close> reads its
  second operand only when the first holds.\<close>

definition sweep_index :: "config \<Rightarrow> color list \<Rightarrow> color list \<Rightarrow> int \<Rightarrow> error + color list" where
  "sweep_index cfg np_cache xs index =
     ebind (py_get np_cache index) (\<lambda>c0.
     ebind (if c0 = BLACK then ebind (py_get np_cache (index - 1)) (\<lambda>c1. Inr (c1 = CYAN))
            else Inr False) (\<lambda>front.
     ebind (if front
            then ebind (py_set xs index CYAN) (\<lambda>xs'.
                   py_set xs' (index - int (ALEXA_HALF_POINTER_WIDTH cfg)) BLUE)
            else Inr xs) (\<lambda>xs1.
     let back_index = int (NUM_LIGHTS cfg) - index - 1 in
     ebind (py_get np_cache back_index) (\<lambda>c2.
     ebind (if c2 = BLACK then ebind (py_get np_cache (back_index + 1)) (\<lambda>c3. Inr (c3 = CYAN))
            else Inr False) (\<lambda>back.
     if back
     then ebind (py_set xs1 back_index CYAN) (\<lambda>xs'.
            py_set xs' (back_index + int (ALEXA_HALF_POINTER_WIDTH cfg)) BLUE)
     else Inr xs1)))))"

text \<open>
  Lines 114 to 140: one pass of the \<^verbatim>\<open>while\<close> body. On entry \<^verbatim>\<open>np_cache\<close> is a copy
  of \<^verbatim>\<open>self.np\<close> (line 112 before the loop, line 137 at the end of each pass). The
  bound of the inner loop is \<^verbatim>\<open>NUM_LIGHTS/2\<close>.
\<close>

definition sweep_frame :: "dialect \<Rightarrow> config \<Rightarrow> controller \<Rightarrow> error + controller" where
  "sweep_frame d cfg s =
     (let np_cache = np s in
      ebind (py_div d (int (NUM_LIGHTS cfg)) 2) (\<lambda>half.
      ebind (py_range half) (\<lambda>indices.
      ebind (for_each (sweep_index cfg np_cache) indices (np s)) (\<lambda>xs.
      ebind (render (s\<lparr>np := xs\<rparr>)) (\<lambda>s1.
      ebind (pprint (np s1)) (\<lambda>_.
      Inr (sleep SLEEP_TIME s1)))))))"

text \<open>The \<^verbatim>\<open>while BLACK in np_cache\<close> loop; \<open>None\<close> stands for a loop that never ends.\<close>

partial_function (option) sweep_loop :: "dialect \<Rightarrow> config \<Rightarrow> controller \<Rightarrow> (error + controller) option" where
  "sweep_loop d cfg s =
     (if BLACK \<in> set (np s)
      then (case sweep_frame d cfg s of
              Inl e \<Rightarrow> Some (Inl e)
            | Inr s' \<Rightarrow> sweep_loop d cfg s')
      else Some (Inr s))"

declare sweep_loop.simps [code]

definition turn_on :: "dialect \<Rightarrow> config \<Rightarrow> controller \<Rightarrow> (error + controller) option" where
  "turn_on d cfg s =
     (case seed_ends cfg (np s) of
        Inl e \<Rightarrow> Some (Inl e)
      | Inr xs \<Rightarrow>
          map_option (\<lambda>r. ebind r (\<lambda>s'. Inr (sleep (SLEEP_TIME * 32) s')))
            (sweep_loop d cfg (s\<lparr>np := xs\<rparr>)))"

subsection \<open>look_around\<close>

text \<open>
  \<^verbatim>\<open>urandom.getrandbits(1)\<close> is an input of the model: \<open>getrandbits k\<close> is the bit that
  call number k of the method returns (\<open>True\<close> for 1). Call 0 chooses the number of
  looks, call k + 1 the offset of look k.
\<close>

text \<open>Lines 155 to 158: the offset and its sign.\<close>

definition look_offset :: "dialect \<Rightarrow> config \<Rightarrow> int \<Rightarrow> bool \<Rightarrow> error + int" where
  "look_offset d cfg current_center rbit =
     (let offset = ((if rbit then 1 else 0) + 1) * int (ALEXA_LOOK_OFFSET_BASE cfg) in
      ebind (py_div d (int (NUM_LIGHTS cfg)) 2) (\<lambda>middle.
      Inr (if int_gt current_center middle then offset * -1 else offset)))"

text \<open>Lines 163 and 164.\<close>

definition clamp_center :: "config \<Rightarrow> int \<Rightarrow> int" where
  "clamp_center cfg new_center =
     max (min new_center (int (NUM_LIGHTS cfg) - int (ALEXA_HALF_POINTER_WIDTH cfg)))
         (int (ALEXA_HALF_POINTER_WIDTH cfg))"

text \<open>One look: lines 154 to 178. \<^verbatim>\<open>range(a, b)\<close> holds the integers from a to b - 1.\<close>

definition look_step :: "dialect \<Rightarrow> config \<Rightarrow> controller \<Rightarrow> bool \<Rightarrow> error + controller" where
  "look_step d cfg s rbit =
     ebind (list_index (np s) CYAN) (\<lambda>first_cyan.
     let current_center = first_cyan + int (ALEXA_HALF_POINTER_WIDTH cfg) in
     ebind (look_offset d cfg current_center rbit) (\<lambda>offset.
     let new_center = clamp_center cfg (current_center + offset);
         new_cyan_pixels = [new_center - 2 .. new_center + 2 - 1]
     in
     ebind (for_each (\<lambda>xs i. py_set xs i (if i \<in> set new_cyan_pixels then CYAN else BLUE))
              (range_int (int (NUM_LIGHTS cfg))) (np s)) (\<lambda>xs.
     ebind (render (s\<lparr>np := xs\<rparr>)) (\<lambda>s'.
     Inr (sleep (SLEEP_TIME * 32) s')))))"

definition look_around :: "dialect \<Rightarrow> config \<Rightarrow> (nat \<Rightarrow> bool) \<Rightarrow> controller \<Rightarrow> error + controller" where
  "look_around d cfg getrandbits s =
     (let num_times_to_look = (if getrandbits 0 then 1 else 0) + 1 in
      for_each (\<lambda>s i. look_step d cfg s (getrandbits (nat i + 1)))
        (range_int num_times_to_look) s)"

subsection \<open>alternating_flash, alternating_pulse_fade, turn_off, play\<close>

definition alternating_flash :: "controller \<Rightarrow> error + controller" where
  "alternating_flash s = Inr s"

text \<open>The frame count that lines 195 and 196 pass is \<^verbatim>\<open>SLEEP_TIME*12\<close>, a float.\<close>

definition alternating_pulse_fade :: "dialect \<Rightarrow> config \<Rightarrow> controller \<Rightarrow> error + controller" where
  "alternating_pulse_fade d cfg s =
     ebind (for_each
              (\<lambda>s i. ebind (fade_to_color d cfg CYAN (PyFloat (SLEEP_TIME * 12)) s)
                        (fade_to_color d cfg BLUE (PyFloat (SLEEP_TIME * 12))))
              (range_int 3) s)
       (\<lambda>s'. Inr (sleep (SLEEP_TIME * 32) s'))"

definition turn_off :: "dialect \<Rightarrow> config \<Rightarrow> controller \<Rightarrow> error + controller" where
  "turn_off d cfg s = fade_to_color d cfg BLACK (PyInt 10) s"

definition play ::
  "dialect \<Rightarrow> config \<Rightarrow> (nat \<Rightarrow> bool) \<Rightarrow> controller \<Rightarrow> (error + controller) option" where
  "play d cfg getrandbits s =
     map_option
       (\<lambda>r. ebind r (\<lambda>s1.
            ebind (look_around d cfg getrandbits s1) (\<lambda>s2.
            ebind (alternating_flash s2) (\<lambda>s3.
            ebind (alternating_pulse_fade d cfg s3) (turn_off d cfg)))))
       (turn_on d cfg s)"

section \<open>Closed forms used in the proofs\<close>

text \<open>The integer that \<^verbatim>\<open>math.trunc(a/b)\<close> yields for a positive b: the floor quotient
  in Python 2, the quotient truncated toward zero in Python 3.\<close>

definition int_quotient :: "dialect \<Rightarrow> int \<Rightarrow> int \<Rightarrow> int" where
  "int_quotient d a b = (case d of Python2 \<Rightarrow> a div b | Python3 \<Rightarrow> sgn a * (\<bar>a\<bar> div b))"

definition faded :: "dialect \<Rightarrow> color \<Rightarrow> int \<Rightarrow> int \<Rightarrow> color \<Rightarrow> color" where
  "faded d color frames frame start =
     (case color of (cr, cg, cb) \<Rightarrow> case start of (r, g, b) \<Rightarrow>
        (r + int_quotient d (cr - r) frames * (frame + 1),
         g + int_quotient d (cg - g) frames * (frame + 1),
         b + int_quotient d (cb - b) frames * (frame + 1)))"

definition fade_np :: "dialect \<Rightarrow> config \<Rightarrow> color \<Rightarrow> int \<Rightarrow> color list \<Rightarrow> int \<Rightarrow> color list" where
  "fade_np d cfg color frames np_cache frame =
     (if frame = frames - 1 then replicate (NUM_LIGHTS cfg) color
      else map (faded d color frames frame) np_cache)"

text \<open>A strip of n cells that is \<open>CYAN\<close> on the four cells c - 2, ..., c + 1 and \<open>BLUE\<close>
  on every other cell.\<close>

definition pointer_window :: "nat \<Rightarrow> nat \<Rightarrow> color list" where
  "pointer_window n c = replicate (c - 2) BLUE @ replicate 4 CYAN @ replicate (n - c - 2) BLUE"

text \<open>A strip of n cells during the power-on sweep: k cells of \<open>BLUE\<close>, h of \<open>CYAN\<close>,
  the cells still \<open>BLACK\<close>, h of \<open>CYAN\<close> and k of \<open>BLUE\<close>.\<close>

definition sweep_strip :: "nat \<Rightarrow> nat \<Rightarrow> nat \<Rightarrow> color list" where
  "sweep_strip n h k =
     replicate k BLUE @ replicate h CYAN @ replicate (n - 2 * (k + h)) BLACK
       @ replicate h CYAN @ replicate k BLUE"


section \<open>Basic facts\<close>

lemma ebind_Inr [simp]: "ebind (Inr x) f = f x"
  by (simp add: ebind_def)

lemma ebind_Inl [simp]: "ebind (Inl e) f = Inl e"
  by (simp add: ebind_def)

lemma py_index_nat: "i < length xs \<Longrightarrow> py_index xs (int i) = Inr i"
  by (simp add: py_index_def)

lemma py_get_nat: "i < length xs \<Longrightarrow> py_get xs (int i) = Inr (xs ! i)"
  by (simp add: py_get_def py_index_nat)

lemma py_set_nat: "i < length xs \<Longrightarrow> py_set xs (int i) v = Inr (xs[i := v])"
  by (simp add: py_set_def py_index_nat)

lemma for_each_append:
  "for_each body (xs @ ys) s = ebind (for_each body xs s) (for_each body ys)"
  by (induction xs arbitrary: s) (auto simp: ebind_def split: sum.splits)

lemma range_int_nat: "range_int (int n) = map int [0..<n]"
  by (simp add: range_int_def)

lemma range_int_0: "n \<le> 0 \<Longrightarrow> range_int n = []"
  by (simp add: range_int_def)

lemma update_after_prefix:
  assumes "length ys = n" and "n < length xs"
  shows "(ys @ drop n xs)[n := v] = (ys @ [v]) @ drop (Suc n) xs"
proof -
  have "drop n xs = xs ! n # drop (Suc n) xs"
    using assms(2) by (simp add: Cons_nth_drop_Suc)
  then show ?thesis
    using assms(1) by (simp add: list_update_append)
qed

lemma for_each_assign:
  assumes "n \<le> length xs" and "\<And>i. i < n \<Longrightarrow> val (int i) = Inr (f i)"
  shows "for_each (\<lambda>ys i. ebind (val i) (py_set ys i)) (range_int (int n)) xs
         = Inr (map f [0..<n] @ drop n xs)"
  using assms unfolding range_int_nat
proof (induction n)
  case 0
  then show ?case by simp
next
  case (Suc n)
  have len: "n < length (map f [0..<n] @ drop n xs)"
    using Suc.prems(1) by simp
  have "(map f [0..<n] @ drop n xs)[n := f n] = (map f [0..<n] @ [f n]) @ drop (Suc n) xs"
    using Suc.prems(1) by (intro update_after_prefix) simp_all
  with Suc len show ?case
    by (simp add: for_each_append py_set_nat del: append_assoc)
qed

lemma set_neopixel_to_list_ok:
  assumes "length input_list \<le> length xs"
  shows "set_neopixel_to_list xs input_list = Inr (input_list @ drop (length input_list) xs)"
proof -
  have "for_each (\<lambda>ys i. ebind (py_get input_list i) (py_set ys i))
          (range_int (int (length input_list))) xs
        = Inr (map (\<lambda>i. input_list ! i) [0..<length input_list] @ drop (length input_list) xs)"
    using assms by (intro for_each_assign) (simp_all add: py_get_nat)
  then show ?thesis
    by (simp add: set_neopixel_to_list_def map_nth)
qed


lemma math_trunc_quotient:
  assumes "0 < b"
  shows "math_trunc (PyFloat (of_int a / of_int b)) = sgn a * (\<bar>a\<bar> div b)"
proof (cases "0 \<le> a")
  case True
  then have "(0::rat) \<le> of_int a / of_int b"
    using assms by simp
  moreover have "sgn a * (a div b) = a div b"
    using True by (cases "a = 0") simp_all
  ultimately show ?thesis
    using True by (simp add: floor_divide_of_int_eq)
next
  case False
  then have neg: "(of_int a / of_int b :: rat) < 0"
    using assms by (simp add: divide_neg_pos)
  have "\<lceil>of_int a / of_int b :: rat\<rceil> = - \<lfloor>of_int (- a) / of_int b :: rat\<rfloor>"
    by (simp add: ceiling_def)
  also have "\<dots> = - ((- a) div b)"
    by (simp only: floor_divide_of_int_eq)
  finally show ?thesis
    using False neg by simp
qed

lemma py_div_ok:
  assumes "0 < b"
  shows "\<exists>q. py_div d a b = Inr q \<and> math_trunc q = int_quotient d a b"
proof (cases d)
  case Python2
  then show ?thesis
    using assms by (simp add: py_div_def int_quotient_def)
next
  case Python3
  then have "py_div d a b = Inr (PyFloat (of_int a / of_int b))"
    using assms by (simp add: py_div_def)
  then show ?thesis
    using assms Python3 math_trunc_quotient [of b a] by (simp add: int_quotient_def)
qed

lemma fade_pixel_ok:
  assumes "0 < frames"
  shows "fade_pixel d color frames frame start = Inr (faded d color frames frame start)"
proof -
  obtain cr cg cb r g b where c: "color = (cr, cg, cb)" and st: "start = (r, g, b)"
    by (metis prod_cases3)
  obtain qr where qr: "py_div d (cr - r) frames = Inr qr"
      "math_trunc qr = int_quotient d (cr - r) frames"
    using py_div_ok [OF assms] by blast
  obtain qg where qg: "py_div d (cg - g) frames = Inr qg"
      "math_trunc qg = int_quotient d (cg - g) frames"
    using py_div_ok [OF assms] by blast
  obtain qb where qb: "py_div d (cb - b) frames = Inr qb"
      "math_trunc qb = int_quotient d (cb - b) frames"
    using py_div_ok [OF assms] by blast
  show ?thesis
    by (simp add: fade_pixel_def faded_def c st qr qg qb)
qed

lemma pprint_ok: "xs \<noteq> [] \<Longrightarrow> pprint xs = Inr ()"
  by (simp add: pprint_def py_get_def py_index_def)

lemma render_ok: "np s \<noteq> [] \<Longrightarrow> render s = Inr (s\<lparr>trace := trace s @ [Show (np s)]\<rparr>)"
  by (simp add: render_def pprint_ok)

lemma fade_frame_ok:
  assumes "length (np s) = NUM_LIGHTS cfg" and "length np_cache = NUM_LIGHTS cfg"
    and "0 < NUM_LIGHTS cfg" and "0 < frames"
  shows "fade_frame d cfg color frames np_cache s frame =
         Inr (s\<lparr>np := fade_np d cfg color frames np_cache frame,
                trace := trace s @ [Show (fade_np d cfg color frames np_cache frame),
                                    Sleep SLEEP_TIME]\<rparr>)"
proof (cases "frame = frames - 1")
  case True
  have "set_neopixel_to_list (np s) (replicate (NUM_LIGHTS cfg) color)
        = Inr (replicate (NUM_LIGHTS cfg) color)"
    using assms(1) by (simp add: set_neopixel_to_list_ok)
  then show ?thesis
    using True assms(3) by (simp add: fade_frame_def fade_np_def render_ok sleep_def)
next
  case False
  have body: "(\<lambda>xs pixel. ebind (py_get np_cache pixel) (\<lambda>starting_color.
                 ebind (fade_pixel d color frames frame starting_color) (py_set xs pixel)))
              = (\<lambda>xs pixel. ebind (ebind (py_get np_cache pixel) (fade_pixel d color frames frame))
                   (py_set xs pixel))"
    by (intro ext) (simp add: ebind_def split: sum.splits)
  have "for_each
          (\<lambda>xs pixel. ebind (ebind (py_get np_cache pixel) (fade_pixel d color frames frame))
             (py_set xs pixel))
          (range_int (int (NUM_LIGHTS cfg))) (np s)
        = Inr (map (\<lambda>i. faded d color frames frame (np_cache ! i)) [0..<NUM_LIGHTS cfg]
               @ drop (NUM_LIGHTS cfg) (np s))"
    using assms by (intro for_each_assign) (simp_all add: py_get_nat fade_pixel_ok)
  moreover have "map (\<lambda>i. faded d color frames frame (np_cache ! i)) [0..<NUM_LIGHTS cfg]
                 = map (faded d color frames frame) np_cache"
    using assms(2) by (simp add: list_eq_iff_nth_eq)
  ultimately have "for_each
          (\<lambda>xs pixel. ebind (py_get np_cache pixel) (\<lambda>starting_color.
             ebind (fade_pixel d color frames frame starting_color) (py_set xs pixel)))
          (range_int (int (NUM_LIGHTS cfg))) (np s)
        = Inr (map (faded d color frames frame) np_cache)"
    unfolding body using assms(1) by simp
  moreover have "np_cache \<noteq> []"
    using assms(2,3) by auto
  ultimately show ?thesis
    using False assms(2) by (simp add: fade_frame_def fade_np_def render_ok sleep_def)
qed

lemma fade_frames_run:
  assumes "length (np s) = NUM_LIGHTS cfg" and "0 < NUM_LIGHTS cfg" and "0 < frames"
    and that: "length np_cache0 = NUM_LIGHTS cfg"
  shows "for_each (fade_frame d cfg color frames np_cache0) (map int [0..<n]) s =
         Inr (s\<lparr>np := (if n = 0 then np s else fade_np d cfg color frames np_cache0 (int n - 1)),
                trace := trace s @ concat (map (\<lambda>k. [Show (fade_np d cfg color frames np_cache0 (int k)),
                                                     Sleep SLEEP_TIME]) [0..<n])\<rparr>)"
proof (induction n)
  case 0
  show ?case by simp
next
  case (Suc n)
  let ?s = "s\<lparr>np := (if n = 0 then np s else fade_np d cfg color frames np_cache0 (int n - 1)),
                trace := trace s @ concat (map (\<lambda>k. [Show (fade_np d cfg color frames np_cache0 (int k)),
                                                     Sleep SLEEP_TIME]) [0..<n])\<rparr>"
  have len: "length (np ?s) = NUM_LIGHTS cfg"
    using assms(1) that by (simp add: fade_np_def)
  show ?case
    using Suc fade_frame_ok [OF len that assms(2,3), of d color "int n"]
    by (simp add: for_each_append)
qed


lemma shown_append: "shown (es @ fs) = shown es @ shown fs"
  by (induction es rule: shown.induct) simp_all

lemma shown_frames: "shown (concat (map (\<lambda>k. [Show (f k), Sleep t]) ks)) = map f ks"
  by (induction ks) simp_all

lemma fade_to_color_run:
  assumes "length (np s) = NUM_LIGHTS cfg" and "0 < NUM_LIGHTS cfg" and "0 < frames"
  shows "fade_to_color d cfg color (PyInt frames) s =
         Inr (s\<lparr>np := replicate (NUM_LIGHTS cfg) color,
                trace := trace s @ concat (map (\<lambda>k. [Show (fade_np d cfg color frames (np s) (int k)),
                                                     Sleep SLEEP_TIME]) [0..<nat frames])\<rparr>)"
proof -
  have "int (nat frames) - 1 = frames - 1" and "nat frames \<noteq> 0"
    using assms(3) by simp_all
  then show ?thesis
    using fade_frames_run [OF assms assms(1), of d color "nat frames"]
    by (simp add: range_int_def fade_np_def)
qed

lemma truncated_step_between:
  fixes r c frames m :: int
  assumes "0 < frames" and "0 \<le> m" and "m \<le> frames"
  shows "min r c \<le> r + sgn (c - r) * (\<bar>c - r\<bar> div frames) * m"
    and "r + sgn (c - r) * (\<bar>c - r\<bar> div frames) * m \<le> max r c"
proof -
  let ?q = "\<bar>c - r\<bar> div frames"
  have q0: "0 \<le> ?q"
    using assms(1) by (simp add: pos_imp_zdiv_nonneg_iff)
  have "?q * m \<le> ?q * frames"
    using q0 assms(3) by (rule mult_left_mono [rotated])
  also have "\<dots> \<le> \<bar>c - r\<bar>"
    using assms(1) by (metis div_mult_mod_eq le_add_same_cancel1 pos_mod_sign)
  finally have up: "?q * m \<le> \<bar>c - r\<bar>" .
  have lo: "0 \<le> ?q * m"
    using q0 assms(2) by simp
  show "min r c \<le> r + sgn (c - r) * ?q * m"
    using up lo by (cases "c - r" "0::int" rule: linorder_cases) (simp_all add: mult.assoc)
  show "r + sgn (c - r) * ?q * m \<le> max r c"
    using up lo by (cases "c - r" "0::int" rule: linorder_cases) (simp_all add: mult.assoc)
qed

lemma first_index_mem:
  "v \<in> set xs \<Longrightarrow> \<exists>i. first_index xs v = Some i \<and> i < length xs"
  by (induction xs) auto

lemma list_index_mem:
  "v \<in> set xs \<Longrightarrow> \<exists>i. list_index xs v = Inr (int i) \<and> i < length xs"
  using first_index_mem [of v xs] by (auto simp: list_index_def)

lemma look_offset_ok: "\<exists>m. look_offset d cfg c rbit = Inr m"
  by (simp add: look_offset_def py_div_def Let_def split: dialect.splits)

lemma clamp_center_bounds:
  assumes "2 * ALEXA_HALF_POINTER_WIDTH cfg \<le> NUM_LIGHTS cfg"
  shows "\<exists>c. clamp_center cfg x = int c \<and> ALEXA_HALF_POINTER_WIDTH cfg \<le> c
             \<and> c \<le> NUM_LIGHTS cfg - ALEXA_HALF_POINTER_WIDTH cfg"
proof -
  let ?c = "nat (clamp_center cfg x)"
  have "int (ALEXA_HALF_POINTER_WIDTH cfg) \<le> clamp_center cfg x"
    and "clamp_center cfg x \<le> int (NUM_LIGHTS cfg) - int (ALEXA_HALF_POINTER_WIDTH cfg)"
    using assms by (simp_all add: clamp_center_def)
  then have "clamp_center cfg x = int ?c \<and> ALEXA_HALF_POINTER_WIDTH cfg \<le> ?c
             \<and> ?c \<le> NUM_LIGHTS cfg - ALEXA_HALF_POINTER_WIDTH cfg"
    by linarith
  then show ?thesis ..
qed

lemma for_each_store:
  assumes "n \<le> length xs"
  shows "for_each (\<lambda>ys i. py_set ys i (h i)) (range_int (int n)) xs
         = Inr (map (\<lambda>i. h (int i)) [0..<n] @ drop n xs)"
  using for_each_assign [OF assms, of "\<lambda>i. Inr (h i)" "\<lambda>i. h (int i)"] by simp

lemma pointer_window_length:
  "2 \<le> c \<Longrightarrow> c + 2 \<le> n \<Longrightarrow> length (pointer_window n c) = n"
  by (simp add: pointer_window_def)

lemma pointer_window_nth:
  assumes "2 \<le> c" and "c + 2 \<le> n" and "i < n"
  shows "pointer_window n c ! i = (if c - 2 \<le> i \<and> i < c + 2 then CYAN else BLUE)"
  using assms by (auto simp: pointer_window_def nth_append)

lemma window_map:
  assumes "2 \<le> c" and "c + 2 \<le> n"
  shows "map (\<lambda>i. if int i \<in> set [int c - 2 .. int c + 2 - 1] then CYAN else BLUE) [0..<n]
         = pointer_window n c"
proof (rule nth_equalityI)
  show "length (map (\<lambda>i. if int i \<in> set [int c - 2 .. int c + 2 - 1] then CYAN else BLUE) [0..<n])
        = length (pointer_window n c)"
    using assms by (simp add: pointer_window_length)
next
  fix i
  assume "i < length (map (\<lambda>i. if int i \<in> set [int c - 2 .. int c + 2 - 1] then CYAN else BLUE) [0..<n])"
  then have i: "i < n" by simp
  have "(int c - 2 \<le> int i \<and> int i \<le> int c + 2 - 1) = (c - 2 \<le> i \<and> i < c + 2)"
    using assms(1) by linarith
  then show "map (\<lambda>i. if int i \<in> set [int c - 2 .. int c + 2 - 1] then CYAN else BLUE) [0..<n] ! i
        = pointer_window n c ! i"
    using i by (simp add: pointer_window_nth [OF assms i])
qed

lemma pointer_window_has_cyan: "CYAN \<in> set (pointer_window n c)"
  by (simp add: pointer_window_def)

lemma look_step_ok:
  assumes "2 \<le> ALEXA_HALF_POINTER_WIDTH cfg"
    and "2 * ALEXA_HALF_POINTER_WIDTH cfg \<le> NUM_LIGHTS cfg"
    and "length (np s) = NUM_LIGHTS cfg" and "CYAN \<in> set (np s)"
  shows "\<exists>c. ALEXA_HALF_POINTER_WIDTH cfg \<le> c \<and> c \<le> NUM_LIGHTS cfg - ALEXA_HALF_POINTER_WIDTH cfg \<and>
             look_step d cfg s rbit =
               Inr (s\<lparr>np := pointer_window (NUM_LIGHTS cfg) c,
                      trace := trace s @ [Show (pointer_window (NUM_LIGHTS cfg) c),
                                          Sleep (SLEEP_TIME * 32)]\<rparr>)"
proof -
  obtain i where i: "list_index (np s) CYAN = Inr (int i)"
    using list_index_mem [OF assms(4)] by blast
  obtain m where m: "look_offset d cfg (int i + int (ALEXA_HALF_POINTER_WIDTH cfg)) rbit = Inr m"
    using look_offset_ok by blast
  obtain c where c: "clamp_center cfg (int i + int (ALEXA_HALF_POINTER_WIDTH cfg) + m) = int c"
      "ALEXA_HALF_POINTER_WIDTH cfg \<le> c" "c \<le> NUM_LIGHTS cfg - ALEXA_HALF_POINTER_WIDTH cfg"
    using clamp_center_bounds [OF assms(2)] by blast
  have c2: "2 \<le> c" "c + 2 \<le> NUM_LIGHTS cfg"
    using c(2,3) assms(1,2) by simp_all
  have "for_each (\<lambda>xs i. py_set xs i (if i \<in> set [int c - 2 .. int c + 2 - 1] then CYAN else BLUE))
          (range_int (int (NUM_LIGHTS cfg))) (np s)
        = Inr (map (\<lambda>i. if int i \<in> set [int c - 2 .. int c + 2 - 1] then CYAN else BLUE)
                 [0..<NUM_LIGHTS cfg] @ drop (NUM_LIGHTS cfg) (np s))"
    by (rule for_each_store) (simp add: assms(3))
  moreover have "drop (NUM_LIGHTS cfg) (np s) = []"
    using assms(3) by simp
  ultimately have "for_each (\<lambda>xs i. py_set xs i (if i \<in> set [int c - 2 .. int c + 2 - 1] then CYAN else BLUE))
          (range_int (int (NUM_LIGHTS cfg))) (np s)
        = Inr (pointer_window (NUM_LIGHTS cfg) c)"
    by (simp only: window_map [OF c2] append_Nil2)
  moreover have "pointer_window (NUM_LIGHTS cfg) c \<noteq> []"
    using pointer_window_has_cyan [of "NUM_LIGHTS cfg" c] by auto
  ultimately have "look_step d cfg s rbit =
               Inr (s\<lparr>np := pointer_window (NUM_LIGHTS cfg) c,
                      trace := trace s @ [Show (pointer_window (NUM_LIGHTS cfg) c),
                                          Sleep (SLEEP_TIME * 32)]\<rparr>)"
    by (simp add: look_step_def i m c(1) Let_def render_ok sleep_def)
  with c(2,3) show ?thesis by blast
qed

lemma look_steps_ok:
  assumes "2 \<le> ALEXA_HALF_POINTER_WIDTH cfg"
    and "2 * ALEXA_HALF_POINTER_WIDTH cfg \<le> NUM_LIGHTS cfg"
  shows "length (np s) = NUM_LIGHTS cfg \<Longrightarrow> CYAN \<in> set (np s) \<Longrightarrow>
         \<exists>s' fs. for_each (\<lambda>s i. look_step d cfg s (g i)) ks s = Inr s' \<and>
                 shown (trace s') = shown (trace s) @ fs \<and> length fs = length ks \<and>
                 np s' = last (np s # fs) \<and>
                 (\<forall>f\<in>set fs. \<exists>c. ALEXA_HALF_POINTER_WIDTH cfg \<le> c \<and>
                                   c \<le> NUM_LIGHTS cfg - ALEXA_HALF_POINTER_WIDTH cfg \<and>
                                   f = pointer_window (NUM_LIGHTS cfg) c)"
proof (induction ks arbitrary: s)
  case Nil
  then show ?case by simp
next
  case (Cons k ks)
  obtain c where c: "ALEXA_HALF_POINTER_WIDTH cfg \<le> c"
      "c \<le> NUM_LIGHTS cfg - ALEXA_HALF_POINTER_WIDTH cfg"
      "look_step d cfg s (g k) =
         Inr (s\<lparr>np := pointer_window (NUM_LIGHTS cfg) c,
                trace := trace s @ [Show (pointer_window (NUM_LIGHTS cfg) c),
                                    Sleep (SLEEP_TIME * 32)]\<rparr>)"
    using look_step_ok [OF assms Cons.prems] by blast
  let ?s1 = "s\<lparr>np := pointer_window (NUM_LIGHTS cfg) c,
                trace := trace s @ [Show (pointer_window (NUM_LIGHTS cfg) c),
                                    Sleep (SLEEP_TIME * 32)]\<rparr>"
  have "2 \<le> c" "c + 2 \<le> NUM_LIGHTS cfg"
    using c(1,2) assms by simp_all
  then have "length (np ?s1) = NUM_LIGHTS cfg" and "CYAN \<in> set (np ?s1)"
    by (simp_all add: pointer_window_length pointer_window_has_cyan)
  from Cons.IH [OF this] obtain s' fs where
    rest: "for_each (\<lambda>s i. look_step d cfg s (g i)) ks ?s1 = Inr s'"
      "shown (trace s') = shown (trace ?s1) @ fs" "length fs = length ks"
      "np s' = last (np ?s1 # fs)"
      "\<forall>f\<in>set fs. \<exists>c. ALEXA_HALF_POINTER_WIDTH cfg \<le> c \<and>
                       c \<le> NUM_LIGHTS cfg - ALEXA_HALF_POINTER_WIDTH cfg \<and>
                       f = pointer_window (NUM_LIGHTS cfg) c"
    by blast
  let ?fs = "pointer_window (NUM_LIGHTS cfg) c # fs"
  have "for_each (\<lambda>s i. look_step d cfg s (g i)) (k # ks) s = Inr s'"
    using c(3) rest(1) by simp
  moreover have "shown (trace s') = shown (trace s) @ ?fs"
    using rest(2) by (simp add: shown_append)
  moreover have "length ?fs = length (k # ks)"
    using rest(3) by simp
  moreover have "np s' = last (np s # ?fs)"
    using rest(4) by simp
  moreover have "\<forall>f\<in>set ?fs. \<exists>c. ALEXA_HALF_POINTER_WIDTH cfg \<le> c \<and>
                       c \<le> NUM_LIGHTS cfg - ALEXA_HALF_POINTER_WIDTH cfg \<and>
                       f = pointer_window (NUM_LIGHTS cfg) c"
    using rest(5) c(1,2) by auto
  ultimately show ?case by blast
qed

section \<open>The power-on sweep\<close>

lemma colors_distinct [simp]:
  "BLACK \<noteq> CYAN" "CYAN \<noteq> BLACK" "BLACK \<noteq> BLUE" "BLUE \<noteq> BLACK" "BLUE \<noteq> CYAN" "CYAN \<noteq> BLUE"
  by (simp_all add: BLACK_def CYAN_def BLUE_def)

lemma length_sweep_strip: "2 * (k + h) \<le> n \<Longrightarrow> length (sweep_strip n h k) = n"
  by (simp add: sweep_strip_def)

lemma nth_sweep_strip:
  assumes "2 * (k + h) \<le> n" and "i < n"
  shows "sweep_strip n h k ! i =
         (if i < k then BLUE else if i < k + h then CYAN
          else if i < n - (k + h) then BLACK else if i < n - k then CYAN else BLUE)"
  using assms by (auto simp: sweep_strip_def nth_append)

lemma py_set_from_end:
  assumes "j < length xs" and "i = - 1 - int j"
  shows "py_set xs i v = Inr (xs[length xs - Suc j := v])"
proof -
  have "nat (i + int (length xs)) = length xs - Suc j" and "i < 0" and "0 \<le> i + int (length xs)"
    using assms by linarith+
  then show ?thesis
    by (simp add: py_set_def py_index_def)
qed

lemma seed_step:
  assumes "2 * (j + 1) \<le> n"
  shows "(sweep_strip n j 0)[j := CYAN, n - 1 - j := CYAN] = sweep_strip n (Suc j) 0"
proof (rule nth_equalityI)
  show "length ((sweep_strip n j 0)[j := CYAN, n - 1 - j := CYAN]) = length (sweep_strip n (Suc j) 0)"
    using assms by (simp add: length_sweep_strip)
next
  fix i
  assume "i < length ((sweep_strip n j 0)[j := CYAN, n - 1 - j := CYAN])"
  then have i: "i < n"
    using assms by (simp add: length_sweep_strip)
  have l: "length (sweep_strip n j 0) = n"
    using assms by (simp add: length_sweep_strip)
  show "(sweep_strip n j 0)[j := CYAN, n - 1 - j := CYAN] ! i = sweep_strip n (Suc j) 0 ! i"
    using assms i by (auto simp: nth_list_update l nth_sweep_strip)
qed

lemma seed_ends_ok:
  assumes "2 * h \<le> n" and that: "ALEXA_HALF_POINTER_WIDTH cfg = h"
  shows "seed_ends cfg (replicate n BLACK) = Inr (sweep_strip n h 0)"
proof -
  have "j \<le> h \<Longrightarrow>
        for_each (\<lambda>xs i. ebind (py_set xs i CYAN) (\<lambda>xs'. py_set xs' (-1 + (i * -1)) CYAN))
          (map int [0..<j]) (replicate n BLACK) = Inr (sweep_strip n j 0)" for j
  proof (induction j)
    case 0
    show ?case by (simp add: sweep_strip_def)
  next
    case (Suc j)
    have l: "length (sweep_strip n j 0) = n" and j: "j < n" "2 * (j + 1) \<le> n"
      using Suc.prems assms by (simp_all add: length_sweep_strip)
    have "py_set ((sweep_strip n j 0)[j := CYAN]) (- 1 + int j * - 1) CYAN
          = Inr ((sweep_strip n j 0)[j := CYAN, n - Suc j := CYAN])"
      using py_set_from_end [of j "(sweep_strip n j 0)[j := CYAN]" "- 1 + int j * - 1" CYAN] l j
      by simp
    moreover have "(sweep_strip n j 0)[j := CYAN, n - Suc j := CYAN] = sweep_strip n (Suc j) 0"
      using seed_step [OF j(2)] by simp
    ultimately show ?case
      using Suc l j by (simp add: for_each_append py_set_nat)
  qed
  from this [of h] show ?thesis
    using that by (simp add: seed_ends_def range_int_nat)
qed

lemma chain_shift:
  fixes a b c d i :: nat
  assumes "a < b" and "b < c" and "c < d"
  shows "(if i = d then x else if i = c then y else if i = a then x else if i = b then y
          else (if i < a then x else if i < b then y else if i < Suc c then z
                else if i < Suc d then y else x))
         = (if i < Suc a then x else if i < Suc b then y else if i < c then z
            else if i < d then y else x)"
proof -
  consider "i < a" | "i = a" | "a < i \<and> i < b" | "i = b" | "b < i \<and> i < c" | "i = c"
    | "c < i \<and> i < d" | "i = d" | "d < i"
    by linarith
  then show ?thesis
    using assms by cases auto
qed

lemma sweep_step:
  assumes "1 \<le> h" and "2 * (k + h) + 2 \<le> n"
  shows "(sweep_strip n h k)[k + h := CYAN, k := BLUE, n - 1 - (k + h) := CYAN, n - 1 - k := BLUE]
         = sweep_strip n h (Suc k)"
proof (rule nth_equalityI)
  have l: "length (sweep_strip n h k) = n"
    using assms by (simp add: length_sweep_strip)
  show "length ((sweep_strip n h k)[k + h := CYAN, k := BLUE, n - 1 - (k + h) := CYAN,
           n - 1 - k := BLUE]) = length (sweep_strip n h (Suc k))"
    using assms by (simp add: length_sweep_strip)
  fix i
  assume "i < length ((sweep_strip n h k)[k + h := CYAN, k := BLUE, n - 1 - (k + h) := CYAN,
           n - 1 - k := BLUE])"
  then have i: "i < n"
    using l by simp
  define c where "c = n - 1 - (k + h)"
  define d where "d = n - 1 - k"
  have ord: "k < k + h" "k + h < c" "c < d"
    and eqs: "n - (k + h) = Suc c" "n - k = Suc d" "n - (Suc k + h) = c" "n - Suc k = d"
      "Suc k + h = Suc (k + h)"
    using assms unfolding c_def d_def by simp_all
  have old: "sweep_strip n h k ! i =
         (if i < k then BLUE else if i < k + h then CYAN
          else if i < Suc c then BLACK else if i < Suc d then CYAN else BLUE)"
    unfolding eqs(1,2) [symmetric] using assms i by (intro nth_sweep_strip) simp_all
  have new: "sweep_strip n h (Suc k) ! i =
         (if i < Suc k then BLUE else if i < Suc (k + h) then CYAN
          else if i < c then BLACK else if i < d then CYAN else BLUE)"
    unfolding eqs(3,4) [symmetric] eqs(5) [symmetric] using assms i
    by (intro nth_sweep_strip) simp_all
  have upd: "(sweep_strip n h k)[k + h := CYAN, k := BLUE, c := CYAN, d := BLUE] ! i
        = (if i = d then BLUE else if i = c then CYAN
           else if i = k then BLUE else if i = k + h then CYAN else sweep_strip n h k ! i)"
    using i l by (simp add: nth_list_update)
  show "(sweep_strip n h k)[k + h := CYAN, k := BLUE, n - 1 - (k + h) := CYAN, n - 1 - k := BLUE] ! i
        = sweep_strip n h (Suc k) ! i"
    unfolding c_def [symmetric] d_def [symmetric] upd new old by (rule chain_shift [OF ord])
qed

lemma py_get_at:
  "i = int j \<Longrightarrow> j < length xs \<Longrightarrow> py_get xs i = Inr (xs ! j)"
  by (simp add: py_get_nat)

lemma py_set_at:
  "i = int j \<Longrightarrow> j < length xs \<Longrightarrow> py_set xs i v = Inr (xs[j := v])"
  by (simp add: py_set_nat)

lemma sweep_strip_black:
  "2 * (k + h) \<le> n \<Longrightarrow> k + h \<le> j \<Longrightarrow> j < n - (k + h) \<Longrightarrow> sweep_strip n h k ! j = BLACK"
  by (simp add: nth_sweep_strip)

lemma sweep_strip_cyan_front:
  "2 * (k + h) \<le> n \<Longrightarrow> k \<le> j \<Longrightarrow> j < k + h \<Longrightarrow> sweep_strip n h k ! j = CYAN"
  by (simp add: nth_sweep_strip)

lemma sweep_strip_cyan_back:
  assumes "2 * (k + h) \<le> n" and "n - (k + h) \<le> j" and "j < n - k"
  shows "sweep_strip n h k ! j = CYAN"
proof -
  have "\<not> j < k" and "\<not> j < k + h" and "\<not> j < n - (k + h)" and "j < n"
    using assms by arith+
  then show ?thesis
    using assms by (simp add: nth_sweep_strip)
qed

lemma sweep_strip_not_black:
  "2 * (k + h) \<le> n \<Longrightarrow> j < n \<Longrightarrow> j < k + h \<or> n - (k + h) \<le> j \<Longrightarrow> sweep_strip n h k ! j \<noteq> BLACK"
  by (auto simp: nth_sweep_strip)

lemma sweep_index_ok:
  assumes h: "1 \<le> h" and n: "2 * (k + h) + 2 \<le> n"
    and cfg: "ALEXA_HALF_POINTER_WIDTH cfg = h" "NUM_LIGHTS cfg = n"
    and xs: "length xs = n" and i: "i < n div 2"
  shows "sweep_index cfg (sweep_strip n h k) xs (int i) =
         Inr (if i = k + h
              then xs[k + h := CYAN, k := BLUE, n - 1 - (k + h) := CYAN, n - 1 - k := BLUE]
              else xs)"
proof -
  let ?c = "sweep_strip n h k"
  have n': "2 * (k + h) \<le> n"
    using n by simp
  have l: "length ?c = n"
    using n by (simp add: length_sweep_strip)
  have i_n: "i < n" "2 * i < n"
    using i by linarith+
  have g0: "py_get ?c (int i) = Inr (?c ! i)"
    using i_n l by (simp add: py_get_nat)
  have g2: "py_get ?c (int n - int i - 1) = Inr (?c ! (n - 1 - i))"
    using i_n l by (intro py_get_at) simp_all
  have g1: "0 < i \<Longrightarrow> py_get ?c (int i - 1) = Inr (?c ! (i - 1))"
    using i_n l by (intro py_get_at) simp_all
  have g3: "0 < i \<Longrightarrow> py_get ?c (int n - int i - 1 + 1) = Inr (?c ! (n - i))"
    using i_n l by (intro py_get_at) simp_all
  consider (before) "i < k + h" | (at) "i = k + h" | (after) "k + h < i"
    by arith
  then show ?thesis
  proof cases
    case before
    have "?c ! i \<noteq> BLACK"
      using n' i_n(1) before by (intro sweep_strip_not_black) simp_all
    moreover have "?c ! (n - 1 - i) \<noteq> BLACK"
    proof (rule sweep_strip_not_black [OF n'])
      show "n - 1 - i < n" using i_n by arith
      show "n - 1 - i < k + h \<or> n - (k + h) \<le> n - 1 - i" using before i_n by arith
    qed
    ultimately have "sweep_index cfg ?c xs (int i) = Inr xs"
      by (simp only: sweep_index_def cfg g0 g2 Let_def ebind_Inr if_False simp_thms)
    then show ?thesis
      using before by simp
  next
    case at
    have pos: "0 < i"
      using at h by simp
    have c0: "?c ! i = BLACK"
      using n' n at by (intro sweep_strip_black) simp_all
    have c1: "?c ! (i - 1) = CYAN"
      using n' at h by (intro sweep_strip_cyan_front) simp_all
    have c2: "?c ! (n - 1 - i) = BLACK"
    proof (rule sweep_strip_black [OF n'])
      show "k + h \<le> n - 1 - i" using at n by arith
      show "n - 1 - i < n - (k + h)" using at n by arith
    qed
    have c3: "?c ! (n - i) = CYAN"
    proof (rule sweep_strip_cyan_back [OF n'])
      show "n - (k + h) \<le> n - i" using at by simp
      show "n - i < n - k" using at h n by arith
    qed
    have s1: "py_set xs (int i) CYAN = Inr (xs[k + h := CYAN])"
      using at i_n xs by (intro py_set_at) simp_all
    have s2: "py_set (xs[k + h := CYAN]) (int i - int h) BLUE = Inr (xs[k + h := CYAN, k := BLUE])"
      using at i_n xs by (intro py_set_at) simp_all
    have s3: "py_set (xs[k + h := CYAN, k := BLUE]) (int n - int i - 1) CYAN
              = Inr (xs[k + h := CYAN, k := BLUE, n - 1 - (k + h) := CYAN])"
      using at i_n xs by (intro py_set_at) simp_all
    have s4: "py_set (xs[k + h := CYAN, k := BLUE, n - 1 - (k + h) := CYAN])
                (int n - int i - 1 + int h) BLUE
              = Inr (xs[k + h := CYAN, k := BLUE, n - 1 - (k + h) := CYAN, n - 1 - k := BLUE])"
      using at i_n xs by (intro py_set_at) simp_all
    have "sweep_index cfg ?c xs (int i) =
          Inr (xs[k + h := CYAN, k := BLUE, n - 1 - (k + h) := CYAN, n - 1 - k := BLUE])"
      by (simp only: sweep_index_def cfg g0 g1 [OF pos] g2 g3 [OF pos] c0 c1 c2 c3
          s1 s2 s3 s4 Let_def ebind_Inr if_True simp_thms)
    then show ?thesis
      unfolding at by simp
  next
    case after
    have pos: "0 < i"
      using after by simp
    have c0: "?c ! i = BLACK"
    proof (rule sweep_strip_black [OF n'])
      show "k + h \<le> i" using after by simp
      show "i < n - (k + h)" using after i_n by arith
    qed
    have c1: "?c ! (i - 1) = BLACK"
    proof (rule sweep_strip_black [OF n'])
      show "k + h \<le> i - 1" using after by arith
      show "i - 1 < n - (k + h)" using after i_n by arith
    qed
    have c2: "?c ! (n - 1 - i) = BLACK"
    proof (rule sweep_strip_black [OF n'])
      show "k + h \<le> n - 1 - i" using after i_n by arith
      show "n - 1 - i < n - (k + h)" using after i_n by arith
    qed
    have c3: "?c ! (n - i) = BLACK"
    proof (rule sweep_strip_black [OF n'])
      show "k + h \<le> n - i" using after i_n by arith
      show "n - i < n - (k + h)" using after i_n by arith
    qed
    have "sweep_index cfg ?c xs (int i) = Inr xs"
      by (simp only: sweep_index_def cfg g0 g1 [OF pos] g2 g3 [OF pos] c0 c1 c2 c3 Let_def
          ebind_Inr if_True if_False simp_thms colors_distinct)
    then show ?thesis
      using after by simp
  qed
qed

lemma for_each_once:
  assumes body: "\<And>i ys. i < m \<Longrightarrow> length ys = n \<Longrightarrow>
                   body ys (int i) = Inr (if i = j then f ys else ys)"
    and len: "\<And>ys. length ys = n \<Longrightarrow> length (f ys) = n"
    and xs: "length xs = n"
  shows "p \<le> m \<Longrightarrow> for_each body (map int [0..<p]) xs = Inr (if j < p then f xs else xs)"
proof (induction p)
  case 0
  show ?case by simp
next
  case (Suc p)
  have p: "p < m"
    using Suc.prems by simp
  have "length (if j < p then f xs else xs) = n"
    using len xs by simp
  from body [OF p this] Suc show ?case
    by (auto simp: for_each_append)
qed

lemma sweep_pass:
  assumes h: "1 \<le> h" and n: "2 * (k + h) + 2 \<le> n"
    and cfg: "ALEXA_HALF_POINTER_WIDTH cfg = h" "NUM_LIGHTS cfg = n"
  shows "for_each (sweep_index cfg (sweep_strip n h k)) (range_int (int (n div 2)))
           (sweep_strip n h k) = Inr (sweep_strip n h (Suc k))"
proof -
  let ?f = "\<lambda>ys :: color list.
              ys[k + h := CYAN, k := BLUE, n - 1 - (k + h) := CYAN, n - 1 - k := BLUE]"
  have l: "length (sweep_strip n h k) = n"
    using n by (simp add: length_sweep_strip)
  have j: "k + h < n div 2"
    using n by arith
  have "for_each (sweep_index cfg (sweep_strip n h k)) (map int [0..<n div 2]) (sweep_strip n h k)
        = Inr (if k + h < n div 2 then ?f (sweep_strip n h k) else sweep_strip n h k)"
  proof (rule for_each_once [where m = "n div 2" and n = n])
    show "sweep_index cfg (sweep_strip n h k) ys (int i) = Inr (if i = k + h then ?f ys else ys)"
      if "i < n div 2" and "length ys = n" for i ys
      using sweep_index_ok [OF h n cfg that(2,1)] .
    show "length (?f ys) = n" if "length ys = n" for ys
      using that by simp
    show "length (sweep_strip n h k) = n"
      by (rule l)
    show "n div 2 \<le> n div 2"
      by simp
  qed
  then show ?thesis
    using j sweep_step [OF h n] by (simp add: range_int_nat)
qed

lemma black_in_sweep_strip:
  "2 * (k + h) \<le> n \<Longrightarrow> BLACK \<in> set (sweep_strip n h k) \<longleftrightarrow> 2 * (k + h) < n"
  by (auto simp: sweep_strip_def)

lemma sweep_frame_floor:
  assumes h: "1 \<le> h" and n: "2 * (k + h) + 2 \<le> n"
    and cfg: "ALEXA_HALF_POINTER_WIDTH cfg = h" "NUM_LIGHTS cfg = n"
    and s: "np s = sweep_strip n h k"
  shows "sweep_frame Python2 cfg s =
         Inr (s\<lparr>np := sweep_strip n h (Suc k),
                trace := trace s @ [Show (sweep_strip n h (Suc k)), Sleep SLEEP_TIME]\<rparr>)"
proof -
  have "length (sweep_strip n h (Suc k)) = n"
    using n by (simp add: length_sweep_strip)
  then have ne: "sweep_strip n h (Suc k) \<noteq> []"
    using n by auto
  have half: "py_div Python2 (int n) 2 = Inr (PyInt (int (n div 2)))"
    by (simp add: py_div_def zdiv_int)
  show ?thesis
    by (simp add: sweep_frame_def cfg s half Let_def sweep_pass [OF h n cfg] render_ok pprint_ok
        ne sleep_def)
qed

lemma sweep_loop_floor:
  assumes h: "1 \<le> h" and even: "even n"
    and cfg: "ALEXA_HALF_POINTER_WIDTH cfg = h" "NUM_LIGHTS cfg = n"
  shows "2 * (k + h) \<le> n \<Longrightarrow> np s = sweep_strip n h k \<Longrightarrow>
         sweep_loop Python2 cfg s =
           Some (Inr (s\<lparr>np := sweep_strip n h (n div 2 - h),
                        trace := trace s @ concat (map (\<lambda>j. [Show (sweep_strip n h (Suc j)),
                                                             Sleep SLEEP_TIME])
                                                    [k..<n div 2 - h])\<rparr>))"
proof (induction "n div 2 - h - k" arbitrary: k s)
  case 0
  obtain b where b: "n = 2 * b"
    using even by (auto elim: evenE)
  have k: "k = n div 2 - h" and full: "2 * (k + h) = n"
    using "0.hyps" "0.prems"(1) unfolding b by simp_all
  have "BLACK \<notin> set (np s)"
    using 0 full by (simp add: black_in_sweep_strip)
  moreover have "s\<lparr>np := sweep_strip n h k, trace := trace s @ []\<rparr> = s"
    using 0 by simp
  ultimately show ?case
    using k by (subst sweep_loop.simps) simp
next
  case (Suc m)
  obtain b where b: "n = 2 * b"
    using even by (auto elim: evenE)
  have lt: "2 * (k + h) < n" and n: "2 * (k + h) + 2 \<le> n"
    using Suc.hyps(2) unfolding b by simp_all
  let ?s1 = "s\<lparr>np := sweep_strip n h (Suc k),
                trace := trace s @ [Show (sweep_strip n h (Suc k)), Sleep SLEEP_TIME]\<rparr>"
  have black: "BLACK \<in> set (np s)"
    using Suc.prems lt by (simp add: black_in_sweep_strip)
  have frame: "sweep_frame Python2 cfg s = Inr ?s1"
    using Suc.prems(2) by (rule sweep_frame_floor [OF h n cfg])
  have "m = n div 2 - h - Suc k" and "2 * (Suc k + h) \<le> n" and "np ?s1 = sweep_strip n h (Suc k)"
    using Suc.hyps(2) n by simp_all
  from Suc.hyps(1) [OF this]
  have rest: "sweep_loop Python2 cfg ?s1 =
           Some (Inr (?s1\<lparr>np := sweep_strip n h (n div 2 - h),
                        trace := trace ?s1 @ concat (map (\<lambda>j. [Show (sweep_strip n h (Suc j)),
                                                             Sleep SLEEP_TIME])
                                                    [Suc k..<n div 2 - h])\<rparr>))" .
  have "k < n div 2 - h"
    using Suc.hyps(2) by simp
  then have upt: "[k..<n div 2 - h] = k # [Suc k..<n div 2 - h]"
    by (rule upt_conv_Cons)
  show ?case
    by (subst sweep_loop.simps) (simp add: black frame rest upt)
qed

lemma turn_on_floor:
  assumes h: "1 \<le> h" and even: "even n" and n: "2 * h \<le> n"
    and cfg: "ALEXA_HALF_POINTER_WIDTH cfg = h" "NUM_LIGHTS cfg = n"
    and s: "np s = replicate n BLACK"
  shows "turn_on Python2 cfg s =
         Some (Inr (s\<lparr>np := sweep_strip n h (n div 2 - h),
                      trace := trace s @ concat (map (\<lambda>j. [Show (sweep_strip n h (Suc j)),
                                                           Sleep SLEEP_TIME])
                                                  [0..<n div 2 - h])
                               @ [Sleep (SLEEP_TIME * 32)]\<rparr>))"
proof -
  have seed: "seed_ends cfg (np s) = Inr (sweep_strip n h 0)"
    unfolding s using n cfg(1) by (rule seed_ends_ok)
  have "sweep_loop Python2 cfg (s\<lparr>np := sweep_strip n h 0\<rparr>) =
           Some (Inr (s\<lparr>np := sweep_strip n h 0\<rparr>\<lparr>np := sweep_strip n h (n div 2 - h),
                        trace := trace (s\<lparr>np := sweep_strip n h 0\<rparr>)
                                 @ concat (map (\<lambda>j. [Show (sweep_strip n h (Suc j)),
                                                      Sleep SLEEP_TIME])
                                             [0..<n div 2 - h])\<rparr>))"
    using n by (intro sweep_loop_floor [OF h even cfg]) simp_all
  then show ?thesis
    by (simp add: turn_on_def seed sleep_def)
qed

section \<open>fade_to_color\<close>

text \<open>
  Claim C1. A call of \<^verbatim>\<open>fade_to_color\<close> with an integer frame count of at least 1, on a
  strip of \<open>NUM_LIGHTS\<close> cells (at least one), returns; afterwards every cell of the strip
  is exactly the target colour, and the call has shown exactly \<open>frames\<close> frames. This
  holds under both readings of \<^verbatim>\<open>/\<close>.
\<close>

theorem fade_to_color_reaches_target:
  assumes "1 \<le> frames" and "length (np s) = NUM_LIGHTS cfg" and "0 < NUM_LIGHTS cfg"
  shows "\<exists>s'. fade_to_color d cfg color (PyInt frames) s = Inr s' \<and>
              np s' = replicate (NUM_LIGHTS cfg) color \<and>
              length (shown (trace s')) = length (shown (trace s)) + nat frames"
proof -
  have "0 < frames"
    using assms(1) by simp
  from fade_to_color_run [OF assms(2,3) this, of d color] show ?thesis
    by (simp add: shown_append shown_frames)
qed

theorem fade_to_color_reaches_target_witness:
  "(1::int) \<le> 10 \<and>
   length (np \<lparr>np = replicate 20 CYAN, trace = []\<rparr>) = NUM_LIGHTS default_config \<and>
   0 < NUM_LIGHTS default_config \<and>
   (\<exists>s'. fade_to_color Python3 default_config BLACK (PyInt 10)
            \<lparr>np = replicate 20 CYAN, trace = []\<rparr> = Inr s' \<and>
         np s' = replicate 20 BLACK \<and> length (shown (trace s')) = 10)"
  using fade_to_color_reaches_target [where frames = 10 and cfg = default_config and d = Python3
      and color = BLACK and s = "\<lparr>np = replicate 20 CYAN, trace = []\<rparr>"]
  by (simp add: default_config_def)

text \<open>
  Claim C2. Under true division, frame k of a fade over \<open>frames\<close> frames, for
  \<open>0 \<le> k < frames - 1\<close>, holds at every cell i the starting colour of the cell plus, on
  each channel, the difference to the target divided by \<open>frames\<close> and truncated toward
  zero (the sign of the difference times the floor quotient of its magnitude), times
  \<open>k + 1\<close>. The quotient is truncated before the multiplication.
\<close>

theorem fade_to_color_intermediate_frame:
  assumes "0 \<le> k" and "k < frames - 1"
    and "length (np s) = NUM_LIGHTS cfg" and "i < NUM_LIGHTS cfg" and "np s ! i = (r, g, b)"
  shows "\<exists>s'. fade_to_color Python3 cfg (cr, cg, cb) (PyInt frames) s = Inr s' \<and>
              shown (trace s') ! (length (shown (trace s)) + nat k) ! i =
                (r + sgn (cr - r) * (\<bar>cr - r\<bar> div frames) * (k + 1),
                 g + sgn (cg - g) * (\<bar>cg - g\<bar> div frames) * (k + 1),
                 b + sgn (cb - b) * (\<bar>cb - b\<bar> div frames) * (k + 1))"
proof -
  have pos: "0 < frames" and n: "0 < NUM_LIGHTS cfg" and k: "nat k < nat frames" "int (nat k) = k"
    using assms(1,2,4) by simp_all
  have "fade_np Python3 cfg (cr, cg, cb) frames (np s) k ! i
        = faded Python3 (cr, cg, cb) frames k (np s ! i)"
    using assms(2,3,4) by (simp add: fade_np_def)
  then show ?thesis
    using fade_to_color_run [OF assms(3) n pos, of Python3 "(cr, cg, cb)"] k assms(5)
    by (simp add: shown_append shown_frames nth_append faded_def int_quotient_def)
qed

text \<open>From CYAN to BLUE in ten frames the green channel moves by trunc(-35/10) = -3 per
  frame (the floor would be -4): frame 0 shows 37.\<close>

theorem fade_to_color_intermediate_frame_witness:
  "(0::int) \<le> 0 \<and> (0::int) < 10 - 1 \<and>
   length (np \<lparr>np = replicate 20 CYAN, trace = []\<rparr>) = NUM_LIGHTS default_config \<and>
   0 < NUM_LIGHTS default_config \<and>
   np \<lparr>np = replicate 20 CYAN, trace = []\<rparr> ! 0 = (0, 40, 40) \<and>
   (\<exists>s'. fade_to_color Python3 default_config (0, 5, 40) (PyInt 10)
            \<lparr>np = replicate 20 CYAN, trace = []\<rparr> = Inr s' \<and>
         shown (trace s') ! 0 ! 0 = (0, 37, 40))"
  using fade_to_color_intermediate_frame [where k = 0 and frames = 10 and cfg = default_config
      and s = "\<lparr>np = replicate 20 CYAN, trace = []\<rparr>" and i = 0
      and r = 0 and g = 40 and b = 40 and cr = 0 and cg = 5 and cb = 40]
  by (simp add: default_config_def CYAN_def)

text \<open>
  Claim C10. Under true division, on every frame but the last each channel of each cell
  lies between the channel's starting value and its target value, both included; when
  the starting colour and the target are 8-bit triples, so is the colour shown.
\<close>

theorem fade_to_color_never_overshoots:
  assumes "0 \<le> k" and "k < frames - 1"
    and "length (np s) = NUM_LIGHTS cfg" and "i < NUM_LIGHTS cfg" and "np s ! i = (r, g, b)"
  shows "\<exists>s' r' g' b'. fade_to_color Python3 cfg (cr, cg, cb) (PyInt frames) s = Inr s' \<and>
              shown (trace s') ! (length (shown (trace s)) + nat k) ! i = (r', g', b') \<and>
              min r cr \<le> r' \<and> r' \<le> max r cr \<and>
              min g cg \<le> g' \<and> g' \<le> max g cg \<and>
              min b cb \<le> b' \<and> b' \<le> max b cb \<and>
              (set [r, g, b, cr, cg, cb] \<subseteq> {0..255} \<longrightarrow> set [r', g', b'] \<subseteq> {0..255})"
proof -
  have pos: "0 < frames" and n: "0 < NUM_LIGHTS cfg" and k: "nat k < nat frames" "int (nat k) = k"
    using assms(1,2,4) by simp_all
  have m: "0 \<le> k + 1" "k + 1 \<le> frames"
    using assms(1,2) by simp_all
  define r' where "r' = r + sgn (cr - r) * (\<bar>cr - r\<bar> div frames) * (k + 1)"
  define g' where "g' = g + sgn (cg - g) * (\<bar>cg - g\<bar> div frames) * (k + 1)"
  define b' where "b' = b + sgn (cb - b) * (\<bar>cb - b\<bar> div frames) * (k + 1)"
  define s' where "s' = s\<lparr>np := replicate (NUM_LIGHTS cfg) (cr, cg, cb),
                trace := trace s @ concat (map (\<lambda>k. [Show (fade_np Python3 cfg (cr, cg, cb) frames (np s) (int k)),
                                                     Sleep SLEEP_TIME]) [0..<nat frames])\<rparr>"
  have run: "fade_to_color Python3 cfg (cr, cg, cb) (PyInt frames) s = Inr s'"
    unfolding s'_def by (rule fade_to_color_run [OF assms(3) n pos])
  have "fade_np Python3 cfg (cr, cg, cb) frames (np s) k ! i
        = faded Python3 (cr, cg, cb) frames k (np s ! i)"
    using assms(2,3,4) by (simp add: fade_np_def)
  then have frame: "shown (trace s') ! (length (shown (trace s)) + nat k) ! i = (r', g', b')"
    using k assms(5)
    by (simp add: s'_def r'_def g'_def b'_def shown_append shown_frames nth_append faded_def
        int_quotient_def)
  have R: "min r cr \<le> r'" "r' \<le> max r cr"
    unfolding r'_def by (rule truncated_step_between [OF pos m])+
  have G: "min g cg \<le> g'" "g' \<le> max g cg"
    unfolding g'_def by (rule truncated_step_between [OF pos m])+
  have B: "min b cb \<le> b'" "b' \<le> max b cb"
    unfolding b'_def by (rule truncated_step_between [OF pos m])+
  have bytes: "set [r, g, b, cr, cg, cb] \<subseteq> {0..255} \<longrightarrow> set [r', g', b'] \<subseteq> {0..255}"
    using R G B by auto
  show ?thesis
    using run frame R G B bytes by (intro exI [of _ s'] exI [of _ r'] exI [of _ g'] exI [of _ b'] conjI)
qed

theorem fade_to_color_never_overshoots_witness:
  "(0::int) \<le> 8 \<and> (8::int) < 10 - 1 \<and>
   length (np \<lparr>np = replicate 20 CYAN, trace = []\<rparr>) = NUM_LIGHTS default_config \<and>
   0 < NUM_LIGHTS default_config \<and>
   np \<lparr>np = replicate 20 CYAN, trace = []\<rparr> ! 0 = (0, 40, 40) \<and>
   (\<exists>s' r' g' b'. fade_to_color Python3 default_config (0, 5, 40) (PyInt 10)
            \<lparr>np = replicate 20 CYAN, trace = []\<rparr> = Inr s' \<and>
         shown (trace s') ! 8 ! 0 = (r', g', b') \<and>
         0 \<le> r' \<and> r' \<le> 0 \<and> 5 \<le> g' \<and> g' \<le> 40 \<and> 40 \<le> b' \<and> b' \<le> 40 \<and>
         set [r', g', b'] \<subseteq> {0..255})"
  using fade_to_color_never_overshoots [where k = 8 and frames = 10 and cfg = default_config
      and s = "\<lparr>np = replicate 20 CYAN, trace = []\<rparr>" and i = 0
      and r = 0 and g = 40 and b = 40 and cr = 0 and cg = 5 and cb = 40]
  by (simp add: default_config_def CYAN_def)

text \<open>A frame count of zero or less runs no frame and leaves the controller as it is.\<close>

lemma fade_to_color_no_frames:
  "frames \<le> 0 \<Longrightarrow> fade_to_color d cfg color (PyInt frames) s = Inr s"
  by (simp add: range_int_0)

text \<open>
  Under floor division the step is the floor of the quotient, and a falling channel can
  pass its target: from CYAN to BLUE in ten frames the green channel moves by -4 per
  frame and frame 8 shows 4, below the target 5.
\<close>

lemma fade_to_color_floor_division_overshoots:
  "\<exists>s'. fade_to_color Python2 default_config BLUE (PyInt 10)
           \<lparr>np = replicate 20 CYAN, trace = []\<rparr> = Inr s' \<and>
        shown (trace s') ! 8 ! 0 = (0, 4, 40)"
proof -
  have "fade_np Python2 default_config BLUE 10 (replicate 20 CYAN) 8 ! 0 = (0, 4, 40)"
    by (simp add: fade_np_def faded_def int_quotient_def BLUE_def CYAN_def)
  moreover have "map (\<lambda>k. fade_np Python2 default_config BLUE 10 (replicate 20 CYAN) (int k)) [0..<10] ! 8
                 = fade_np Python2 default_config BLUE 10 (replicate 20 CYAN) (int 8)"
    by simp
  ultimately show ?thesis
    using fade_to_color_run [where s = "\<lparr>np = replicate 20 CYAN, trace = []\<rparr>"
        and cfg = default_config and frames = 10 and d = Python2 and color = BLUE]
    by (simp add: default_config_def shown_append shown_frames)
qed

section \<open>turn_on\<close>

lemma sweep_frame_true_division: "sweep_frame Python3 cfg s = Inl TypeError"
  by (simp add: sweep_frame_def py_div_def)

text \<open>
  Under floor division the sweep does what its comments say. From an all-off strip of
  even length n, with a half pointer width h between 1 and n / 2, \<^verbatim>\<open>turn_on\<close> returns
  after exactly n / 2 - h frames; the strip then holds 2 * h cells of CYAN in the middle,
  BLUE on both sides and no BLACK cell.
\<close>

lemma turn_on_floor_division_completes:
  assumes "1 \<le> h" and "even n" and "2 * h \<le> n"
    and "ALEXA_HALF_POINTER_WIDTH cfg = h" and "NUM_LIGHTS cfg = n"
    and "np s = replicate n BLACK"
  shows "\<exists>s'. turn_on Python2 cfg s = Some (Inr s') \<and>
              np s' = replicate (n div 2 - h) BLUE @ replicate (2 * h) CYAN
                        @ replicate (n div 2 - h) BLUE \<and>
              BLACK \<notin> set (np s') \<and>
              length (shown (trace s')) = length (shown (trace s)) + (n div 2 - h)"
proof -
  obtain b where b: "n = 2 * b"
    using assms(2) by (auto elim: evenE)
  have "n - 2 * (n div 2 - h + h) = 0"
    using assms(3) unfolding b by simp
  then have strip: "sweep_strip n h (n div 2 - h) =
          replicate (n div 2 - h) BLUE @ replicate (2 * h) CYAN @ replicate (n div 2 - h) BLUE"
    by (simp add: sweep_strip_def mult_2 replicate_add)
  show ?thesis
    unfolding turn_on_floor [OF assms] strip
    by (simp add: shown_append shown_frames)
qed

text \<open>
  Claim C3, at the globals of the module, under true division. After the two ends are
  seeded there are BLACK cells, the loop is entered, and \<^verbatim>\<open>range(NUM_LIGHTS/2)\<close> raises
  TypeError in the first pass: \<^verbatim>\<open>turn_on\<close> does not complete.
\<close>

theorem turn_on_raises_under_true_division:
  "turn_on Python3 default_config \<lparr>np = replicate 20 BLACK, trace = []\<rparr> = Some (Inl TypeError)"
proof -
  have seed: "seed_ends default_config (replicate 20 BLACK) = Inr (sweep_strip 20 2 0)"
    by (rule seed_ends_ok) (simp_all add: default_config_def)
  have "BLACK \<in> set (sweep_strip 20 2 0)"
    by (simp add: black_in_sweep_strip)
  then have "sweep_loop Python3 default_config \<lparr>np = sweep_strip 20 2 0, trace = []\<rparr>
             = Some (Inl TypeError)"
    by (subst sweep_loop.simps) (simp add: sweep_frame_true_division)
  then show ?thesis
    by (simp add: turn_on_def seed)
qed

text \<open>Under true division the loop ends without a frame: where a BLACK cell is left its
  first pass raises TypeError, elsewhere it is not entered.\<close>

lemma sweep_loop_true_division:
  "sweep_loop Python3 cfg s = Some (if BLACK \<in> set (np s) then Inl TypeError else Inr s)"
  by (subst sweep_loop.simps) (simp add: sweep_frame_true_division)

text \<open>
  Claim C4. From an all-off strip of even length n, with a half pointer width h between
  1 and n / 2, the two ends are seeded and the loop of the sweep ends, under both
  readings of \<^verbatim>\<open>/\<close>. When it ends without an exception, no BLACK cell is left and it has
  shown exactly n / 2 - h frames (under floor division each pass turns two BLACK cells
  on, one on each side); when it ends with an exception, the exception is raised by its
  first pass, before a frame is shown. The number of frames is at most n / 2 - h.
\<close>

theorem sweep_loop_terminates_within_bound:
  assumes "1 \<le> h" and "even n" and "2 * h \<le> n"
    and "ALEXA_HALF_POINTER_WIDTH cfg = h" and "NUM_LIGHTS cfg = n"
    and "np s = replicate n BLACK"
  shows "\<exists>xs r. seed_ends cfg (np s) = Inr xs \<and>
                sweep_loop d cfg (s\<lparr>np := xs\<rparr>) = Some r \<and>
                (case r of
                   Inr s' \<Rightarrow> BLACK \<notin> set (np s') \<and>
                             length (shown (trace s')) = length (shown (trace s)) + (n div 2 - h)
                 | Inl e \<Rightarrow> sweep_frame d cfg (s\<lparr>np := xs\<rparr>) = Inl e)"
proof -
  let ?s0 = "s\<lparr>np := sweep_strip n h 0\<rparr>"
  have seed: "seed_ends cfg (np s) = Inr (sweep_strip n h 0)"
    unfolding assms(6) using assms(3,4) by (rule seed_ends_ok)
  obtain b where b: "n = 2 * b"
    using assms(2) by (auto elim: evenE)
  have "\<exists>r. sweep_loop d cfg ?s0 = Some r \<and>
            (case r of
               Inr s' \<Rightarrow> BLACK \<notin> set (np s') \<and>
                         length (shown (trace s')) = length (shown (trace s)) + (n div 2 - h)
             | Inl e \<Rightarrow> sweep_frame d cfg ?s0 = Inl e)"
  proof (cases d)
    case Python2
    have full: "2 * (n div 2 - h + h) \<le> n" and none: "\<not> 2 * (n div 2 - h + h) < n"
      using assms(3) unfolding b by simp_all
    have "sweep_loop Python2 cfg ?s0 =
            Some (Inr (?s0\<lparr>np := sweep_strip n h (n div 2 - h),
                         trace := trace ?s0 @ concat (map (\<lambda>j. [Show (sweep_strip n h (Suc j)),
                                                               Sleep SLEEP_TIME])
                                                      [0..<n div 2 - h])\<rparr>))"
      using assms(3) by (intro sweep_loop_floor [OF assms(1,2,4,5)]) simp_all
    moreover have "BLACK \<notin> set (sweep_strip n h (n div 2 - h))"
      using none by (simp only: black_in_sweep_strip [OF full] not_False_eq_True)
    ultimately show ?thesis
      using Python2 by (simp add: shown_append shown_frames)
  next
    case Python3
    show ?thesis
    proof (cases "BLACK \<in> set (sweep_strip n h 0)")
      case True
      then show ?thesis
        using Python3 by (simp add: sweep_loop_true_division sweep_frame_true_division)
    next
      case False
      then have "\<not> 2 * (0 + h) < n"
        using assms(3) by (simp add: black_in_sweep_strip)
      then have "n div 2 - h = 0"
        unfolding b by simp
      then show ?thesis
        using False Python3 by (simp add: sweep_loop_true_division)
    qed
  qed
  with seed show ?thesis
    by blast
qed

text \<open>With the globals of the module and floor division the loop shows eight frames.\<close>

theorem sweep_loop_terminates_within_bound_witness:
  "(1::nat) \<le> 2 \<and> even (20::nat) \<and> (2::nat) * 2 \<le> 20 \<and>
   ALEXA_HALF_POINTER_WIDTH default_config = 2 \<and> NUM_LIGHTS default_config = 20 \<and>
   np \<lparr>np = replicate 20 BLACK, trace = []\<rparr> = replicate 20 BLACK \<and>
   (\<exists>xs r. seed_ends default_config (replicate 20 BLACK) = Inr xs \<and>
            sweep_loop Python2 default_config \<lparr>np = xs, trace = []\<rparr> = Some r \<and>
            (case r of
               Inr s' \<Rightarrow> BLACK \<notin> set (np s') \<and> length (shown (trace s')) = 8
             | Inl e \<Rightarrow> sweep_frame Python2 default_config \<lparr>np = xs, trace = []\<rparr> = Inl e))"
  using sweep_loop_terminates_within_bound [where h = 2 and n = 20 and cfg = default_config
      and d = Python2 and s = "\<lparr>np = replicate 20 BLACK, trace = []\<rparr>"]
  by (simp add: default_config_def cong: sum.case_cong)

section \<open>look_around\<close>

text \<open>
  Claim C5. On a strip of \<open>NUM_LIGHTS\<close> cells that holds a CYAN cell, with a half pointer
  width of at least 2 and at most half the strip, \<^verbatim>\<open>look_around\<close> returns after one or
  two looks. Each look shows one frame, and each frame is a strip of \<open>NUM_LIGHTS\<close> cells
  that is CYAN on the four cells c - 2, ..., c + 1 and BLUE elsewhere, for a centre c
  between the half pointer width and \<open>NUM_LIGHTS\<close> minus the half pointer width; the strip
  is left as the last frame.
\<close>

theorem look_around_pointer_window:
  assumes "2 \<le> ALEXA_HALF_POINTER_WIDTH cfg"
    and "2 * ALEXA_HALF_POINTER_WIDTH cfg \<le> NUM_LIGHTS cfg"
    and "length (np s) = NUM_LIGHTS cfg" and "CYAN \<in> set (np s)"
  shows "\<exists>s' fs. look_around d cfg getrandbits s = Inr s' \<and>
                 shown (trace s') = shown (trace s) @ fs \<and>
                 length fs = (if getrandbits 0 then 2 else 1) \<and>
                 np s' = last fs \<and>
                 (\<forall>f\<in>set fs. \<exists>c. ALEXA_HALF_POINTER_WIDTH cfg \<le> c \<and>
                                   c \<le> NUM_LIGHTS cfg - ALEXA_HALF_POINTER_WIDTH cfg \<and>
                                   f = pointer_window (NUM_LIGHTS cfg) c)"
proof -
  let ?ks = "range_int ((if getrandbits 0 then 1 else 0) + 1)"
  obtain s' fs where
    run: "for_each (\<lambda>s i. look_step d cfg s (getrandbits (nat i + 1))) ?ks s = Inr s'"
      "shown (trace s') = shown (trace s) @ fs" "length fs = length ?ks"
      "np s' = last (np s # fs)"
      "\<forall>f\<in>set fs. \<exists>c. ALEXA_HALF_POINTER_WIDTH cfg \<le> c \<and>
                       c \<le> NUM_LIGHTS cfg - ALEXA_HALF_POINTER_WIDTH cfg \<and>
                       f = pointer_window (NUM_LIGHTS cfg) c"
    using look_steps_ok [OF assms, of d "\<lambda>i. getrandbits (nat i + 1)" ?ks] by blast
  have len: "length ?ks = (if getrandbits 0 then 2 else 1)"
    by (simp add: range_int_def)
  then have "fs \<noteq> []"
    using run(3) by (auto split: if_splits)
  then have "np s' = last fs"
    using run(4) by simp
  with run len show ?thesis
    by (simp add: look_around_def Let_def)
qed

theorem look_around_pointer_window_witness:
  "2 \<le> ALEXA_HALF_POINTER_WIDTH default_config \<and>
   2 * ALEXA_HALF_POINTER_WIDTH default_config \<le> NUM_LIGHTS default_config \<and>
   length (np \<lparr>np = pointer_window 20 10, trace = []\<rparr>) = NUM_LIGHTS default_config \<and>
   CYAN \<in> set (np \<lparr>np = pointer_window 20 10, trace = []\<rparr>) \<and>
   (\<exists>s' fs. look_around Python3 default_config (\<lambda>k. True)
               \<lparr>np = pointer_window 20 10, trace = []\<rparr> = Inr s' \<and>
            shown (trace s') = fs \<and> length fs = 2 \<and> np s' = last fs \<and>
            (\<forall>f\<in>set fs. \<exists>c. 2 \<le> c \<and> c \<le> 18 \<and> f = pointer_window 20 c))"
  using look_around_pointer_window [where cfg = default_config and d = Python3
      and getrandbits = "\<lambda>k. True" and s = "\<lparr>np = pointer_window 20 10, trace = []\<rparr>"]
  by (simp add: default_config_def pointer_window_def)

text \<open>
  Claim C6, as the code has it. The offset of a look is the drawn bit plus one, times
  \<open>ALEXA_LOOK_OFFSET_BASE\<close>, with a sign: its magnitude is the base or twice the base
  (2 or 4 for the base 2), not twice or four times the base.
\<close>

theorem look_offset_magnitude:
  "\<exists>m. look_offset d cfg current_center rbit = Inr m \<and>
       \<bar>m\<bar> = ((if rbit then 1 else 0) + 1) * int (ALEXA_LOOK_OFFSET_BASE cfg) \<and>
       \<bar>m\<bar> \<in> {int (ALEXA_LOOK_OFFSET_BASE cfg), 2 * int (ALEXA_LOOK_OFFSET_BASE cfg)}"
  by (cases d) (simp_all add: look_offset_def py_div_def Let_def)

text \<open>With the globals of the module and the bit 0 the offset is 2, which is neither
  \<open>2 * base = 4\<close> nor \<open>4 * base = 8\<close>.\<close>

theorem look_offset_magnitude_counterexample:
  "look_offset Python3 default_config 10 False = Inr 2 \<and>
   \<bar>2 :: int\<bar> \<notin> {2 * int (ALEXA_LOOK_OFFSET_BASE default_config),
                 4 * int (ALEXA_LOOK_OFFSET_BASE default_config)}"
  by (simp add: look_offset_def py_div_def default_config_def)

text \<open>
  Claim C7, as the code has it. With 20 lights and the current centre 10 the comparison
  \<^verbatim>\<open>current_center > NUM_LIGHTS/2\<close> is false, the offset is not negated, and the offset
  added to the centre is positive.
\<close>

theorem look_offset_midpoint_positive:
  "\<exists>m. look_offset d default_config 10 rbit = Inr m \<and> 0 < m"
  by (cases d) (simp_all add: look_offset_def py_div_def default_config_def)

theorem look_offset_midpoint_counterexample:
  "look_offset Python3 default_config 10 False = Inr 2 \<and>
   look_offset Python3 default_config 10 True = Inr 4 \<and>
   \<not> (2 :: int) < 0 \<and> \<not> (4 :: int) < 0"
  by (simp add: look_offset_def py_div_def default_config_def)

section \<open>alternating_pulse_fade\<close>

text \<open>
  Claim C8, at every state. The first \<^verbatim>\<open>fade_to_color\<close> of the first repetition gets
  the float \<^verbatim>\<open>SLEEP_TIME*12\<close> as its frame count and raises TypeError at
  \<^verbatim>\<open>range(frames)\<close>: no fade is run and no hold follows.
\<close>

theorem alternating_pulse_fade_raises:
  "alternating_pulse_fade d cfg s = Inl TypeError"
  by (simp add: alternating_pulse_fade_def range_int_def upt_rec)

section \<open>Construction\<close>

text \<open>
  Claim C9, as the code has it. \<^verbatim>\<open>__init__\<close> checks nothing: for every strip length of
  at least 1, whatever its parity, the pointer width and the half pointer width, the
  construction returns a controller whose strip is \<open>NUM_LIGHTS\<close> cells of BLACK, shown
  once.
\<close>

theorem init_checks_nothing:
  assumes "0 < NUM_LIGHTS cfg"
  shows "init cfg =
         Inr \<lparr>np = replicate (NUM_LIGHTS cfg) BLACK,
              trace = [Show (replicate (NUM_LIGHTS cfg) BLACK), Sleep SLEEP_TIME]\<rparr>"
proof -
  have "replicate (NUM_LIGHTS cfg) BLACK \<noteq> []"
    using assms by simp
  then show ?thesis
    by (simp add: init_def Let_def pprint_ok set_neopixel_to_list_ok render_ok sleep_def)
qed

theorem init_checks_nothing_witness:
  "0 < NUM_LIGHTS \<lparr>NUM_LIGHTS = 1, ALEXA_POINTER_WIDTH = 7, ALEXA_HALF_POINTER_WIDTH = 2,
                    ALEXA_LOOK_OFFSET_BASE = 2\<rparr> \<and>
   init \<lparr>NUM_LIGHTS = 1, ALEXA_POINTER_WIDTH = 7, ALEXA_HALF_POINTER_WIDTH = 2,
         ALEXA_LOOK_OFFSET_BASE = 2\<rparr> =
     Inr \<lparr>np = [BLACK], trace = [Show [BLACK], Sleep SLEEP_TIME]\<rparr>"
  using init_checks_nothing [where cfg = "\<lparr>NUM_LIGHTS = 1, ALEXA_POINTER_WIDTH = 7,
      ALEXA_HALF_POINTER_WIDTH = 2, ALEXA_LOOK_OFFSET_BASE = 2\<rparr>"]
  by simp

text \<open>A strip of 3 lights with a pointer 3 wide is odd, too short for two half pointers
  and has an odd pointer width; it is constructed without an error.\<close>

theorem init_accepts_invalid_configuration:
  "init \<lparr>NUM_LIGHTS = 3, ALEXA_POINTER_WIDTH = 3, ALEXA_HALF_POINTER_WIDTH = 2,
         ALEXA_LOOK_OFFSET_BASE = 2\<rparr> =
     Inr \<lparr>np = [BLACK, BLACK, BLACK],
          trace = [Show [BLACK, BLACK, BLACK], Sleep SLEEP_TIME]\<rparr>"
  by (simp add: init_def Let_def pprint_ok set_neopixel_to_list_ok render_ok sleep_def
      numeral_3_eq_3)

end
